theory Spec2Isabelle
  imports Main
begin

section \<open>Python values used by pdfTableExtractor.py\<close>

text \<open>
  A Python 3 \<open>str\<close> is a sequence of Unicode code points, so a string is a list of
  code points (natural numbers).  \<open>lit\<close> turns an ASCII literal of the source into
  such a string.
\<close>

type_synonym codepoint = nat
type_synonym pystr = "codepoint list"

definition lit :: "string \<Rightarrow> pystr" where
  "lit s = map of_char s"

text \<open>
  \<open>str.strip()\<close> without argument removes leading and trailing characters for which
  \<open>str.isspace\<close> holds: the ASCII controls 0x09..0x0D and 0x1C..0x1F, the space, and
  the Unicode white space beyond ASCII.
\<close>

definition is_space :: "codepoint \<Rightarrow> bool" where
  "is_space c = ((0x09 \<le> c \<and> c \<le> 0x0D) \<or> (0x1C \<le> c \<and> c \<le> 0x20) \<or> c = 0x85 \<or> c = 0xA0
     \<or> c = 0x1680 \<or> (0x2000 \<le> c \<and> c \<le> 0x200A) \<or> c = 0x2028 \<or> c = 0x2029
     \<or> c = 0x202F \<or> c = 0x205F \<or> c = 0x3000)"

definition lstrip :: "pystr \<Rightarrow> pystr" where
  "lstrip s = dropWhile is_space s"

definition rstrip :: "pystr \<Rightarrow> pystr" where
  "rstrip s = rev (dropWhile is_space (rev s))"

definition strip :: "pystr \<Rightarrow> pystr" where
  "strip s = rstrip (lstrip s)"

text \<open>An exception is known to the script only through \<open>str(e)\<close>.\<close>

datatype exception = Exception (str: pystr)

section \<open>What pdfplumber hands to the script\<close>

text \<open>
  A cell of a raw table is a string or \<open>None\<close>; a row is a list of cells, a table a list
  of rows.  A page is what \<open>page.extract_tables()\<close> does on it: it raises, or it returns
  the list of raw tables.  \<open>pdfplumber.open\<close> (with the read of \<open>pdf.pages\<close>) raises or
  gives the pages in document order.
\<close>

type_synonym cell = "pystr option"
type_synonym raw_row = "cell list"
type_synonym raw_table = "raw_row list"
type_synonym page = "exception + raw_table list"
type_synonym pdf = "page list"
type_synonym opener = "pystr \<Rightarrow> exception + pdf"

section \<open>The result dictionary\<close>

record table_record =
  page :: int
  headers :: "pystr list"
  rows :: "pystr list list"

record results =
  tables :: "table_record list"
  has_tables :: bool
  page_count :: int

section \<open>extract\_tables\<close>

text \<open>\<open>cell.strip() if cell else ""\<close>: \<open>None\<close> and the empty string are falsy.\<close>

definition clean_cell :: "cell \<Rightarrow> pystr" where
  "clean_cell c = (case c of None \<Rightarrow> [] | Some s \<Rightarrow> if s \<noteq> [] then strip s else [])"

text \<open>\<open>any(cleaned_row)\<close>: some element is truthy, that is, a non-empty string.\<close>

definition any_cell :: "pystr list \<Rightarrow> bool" where
  "any_cell cleaned_row = list_ex (\<lambda>s. s \<noteq> []) cleaned_row"

text \<open>The loop \<open>for row in table\<close>, with \<open>cleaned_rows\<close> as the accumulator.\<close>

fun rows_loop :: "pystr list list \<Rightarrow> raw_table \<Rightarrow> pystr list list" where
  "rows_loop cleaned_rows [] = cleaned_rows"
| "rows_loop cleaned_rows (row # rest) =
     (let cleaned_row = map clean_cell row
      in rows_loop (if any_cell cleaned_row then cleaned_rows @ [cleaned_row] else cleaned_rows) rest)"

definition clean_rows :: "raw_table \<Rightarrow> pystr list list" where
  "clean_rows table = rows_loop [] table"

text \<open>The body of \<open>for table in tables\<close>: clean the rows, append a record when any is left.\<close>

definition process_table :: "results \<Rightarrow> int \<Rightarrow> raw_table \<Rightarrow> results" where
  "process_table res page_num table =
     (let cleaned_rows = clean_rows table
      in if cleaned_rows \<noteq> []
         then res\<lparr>tables := tables res @
                [\<lparr>page = page_num + 1,
                  headers = cleaned_rows ! 0,
                  rows = (if length cleaned_rows > 1 then drop 1 cleaned_rows else cleaned_rows)\<rparr>]\<rparr>
         else res)"

text \<open>The records one table adds to \<open>results["tables"]\<close> when it is met on page \<open>page_num\<close>.\<close>

definition emitted :: "int \<Rightarrow> raw_table \<Rightarrow> table_record list" where
  "emitted page_num table =
     tables (process_table \<lparr>tables = [], has_tables = False, page_count = 0\<rparr> page_num table)"

fun tables_loop :: "results \<Rightarrow> int \<Rightarrow> raw_table list \<Rightarrow> results" where
  "tables_loop res page_num [] = res"
| "tables_loop res page_num (table # rest) = tables_loop (process_table res page_num table) page_num rest"

text \<open>
  The loop \<open>for page_num, page in enumerate(pdf.pages)\<close>.  An exception of
  \<open>page.extract_tables()\<close> leaves the function; the results built so far are lost.
\<close>

fun pages_loop :: "results \<Rightarrow> int \<Rightarrow> page list \<Rightarrow> exception + results" where
  "pages_loop res page_num [] = Inr res"
| "pages_loop res page_num (Inl e # rest) = Inl e"
| "pages_loop res page_num (Inr tbls # rest) =
     pages_loop (if tbls \<noteq> [] then tables_loop (res\<lparr>has_tables := True\<rparr>) page_num tbls else res)
       (page_num + 1) rest"

definition extract_tables :: "opener \<Rightarrow> pystr \<Rightarrow> exception + results" where
  "extract_tables pdfplumber_open pdf_path =
     (let res = \<lparr>tables = [], has_tables = False, page_count = 0\<rparr>
      in case pdfplumber_open pdf_path of
           Inl e \<Rightarrow> Inl e
         | Inr pages \<Rightarrow> pages_loop (res\<lparr>page_count := int (length pages)\<rparr>) 0 pages)"

section \<open>json.dumps\<close>

text \<open>
  The values the script serialises: dictionaries with string keys (in insertion order),
  lists, strings, integers and booleans.
\<close>

datatype json =
    JBool bool
  | JInt int
  | JString pystr
  | JArray "json list"
  | JObject "(pystr \<times> json) list"

definition table_json :: "table_record \<Rightarrow> json" where
  "table_json t = JObject
     [(lit ''page'', JInt (page t)),
      (lit ''headers'', JArray (map JString (headers t))),
      (lit ''rows'', JArray (map (\<lambda>r. JArray (map JString r)) (rows t)))]"

definition results_json :: "results \<Rightarrow> json" where
  "results_json res = JObject
     [(lit ''tables'', JArray (map table_json (tables res))),
      (lit ''has_tables'', JBool (has_tables res)),
      (lit ''page_count'', JInt (page_count res))]"

text \<open>
  \<open>json.dumps\<close> with its default options: \<open>ensure_ascii\<close>, separators \<open>", "\<close> and
  \<open>": "\<close>.  Every character outside \<open>' '..'~'\<close>, the quote and the backslash are escaped.
\<close>

definition hex_digit :: "nat \<Rightarrow> codepoint" where
  "hex_digit d = (if d < 10 then 48 + d else 87 + d)"

definition u_escape :: "nat \<Rightarrow> pystr" where
  "u_escape n = [92, 117, hex_digit (n div 4096 mod 16), hex_digit (n div 256 mod 16),
                 hex_digit (n div 16 mod 16), hex_digit (n mod 16)]"

definition escape_char :: "codepoint \<Rightarrow> pystr" where
  "escape_char c =
     (if c = 92 then [92, 92]
      else if c = 34 then [92, 34]
      else if c = 8 then [92, 98]
      else if c = 12 then [92, 102]
      else if c = 10 then [92, 110]
      else if c = 13 then [92, 114]
      else if c = 9 then [92, 116]
      else if 32 \<le> c \<and> c \<le> 126 then [c]
      else if c < 0x10000 then u_escape c
      else u_escape (0xD800 + (c - 0x10000) div 1024 mod 1024)
           @ u_escape (0xDC00 + (c - 0x10000) mod 1024))"

definition encode_string :: "pystr \<Rightarrow> pystr" where
  "encode_string s = [34] @ concat (map escape_char s) @ [34]"

fun digits :: "nat \<Rightarrow> pystr" where
  "digits n = (if n < 10 then [48 + n] else digits (n div 10) @ [48 + n mod 10])"

declare digits.simps [simp del]

definition encode_int :: "int \<Rightarrow> pystr" where
  "encode_int i = (if i < 0 then [45] @ digits (nat (- i)) else digits (nat i))"

fun join :: "pystr \<Rightarrow> pystr list \<Rightarrow> pystr" where
  "join sep [] = []"
| "join sep [x] = x"
| "join sep (x # y # ys) = x @ sep @ join sep (y # ys)"

fun json_dumps :: "json \<Rightarrow> pystr" where
  "json_dumps (JBool b) = (if b then lit ''true'' else lit ''false'')"
| "json_dumps (JInt i) = encode_int i"
| "json_dumps (JString s) = encode_string s"
| "json_dumps (JArray xs) = [91] @ join [44, 32] (map json_dumps xs) @ [93]"
| "json_dumps (JObject kvs) =
     [123] @ join [44, 32] (map (\<lambda>(k, v). encode_string k @ [58, 32] @ json_dumps v) kvs) @ [125]"

section \<open>The script\<close>

text \<open>
  A run of the script prints lines to standard output (one per \<open>print\<close>) and ends with an
  exit status: that of \<open>sys.exit\<close>, or 0 when the script runs to its end.
\<close>

record outcome =
  stdout :: "pystr list"
  exit_status :: int

definition main :: "opener \<Rightarrow> pystr list \<Rightarrow> outcome" where
  "main pdfplumber_open argv =
     (if length argv < 2
      then \<lparr>stdout = [json_dumps (JObject [(lit ''error'', JString (lit ''PDF path required''))])],
            exit_status = 1\<rparr>
      else case extract_tables pdfplumber_open (argv ! 1) of
             Inr result \<Rightarrow> \<lparr>stdout = [json_dumps (results_json result)], exit_status = 0\<rparr>
           | Inl e \<Rightarrow> \<lparr>stdout = [json_dumps (JObject [(lit ''error'', JString (str e))])],
                        exit_status = 1\<rparr>)"

text \<open>
  Two file systems for concrete runs: one where every path opens to the same document, one
  where every path fails to open.
\<close>

definition readable :: "pdf \<Rightarrow> opener" where
  "readable doc pdf_path = Inr doc"

definition unreadable :: "exception \<Rightarrow> opener" where
  "unreadable e pdf_path = Inl e"

section \<open>The iteration as list functions\<close>

lemma rows_loop_filter: "rows_loop acc t = acc @ filter any_cell (map (map clean_cell) t)"
  by (induction t arbitrary: acc) (simp_all add: Let_def)

lemma clean_rows_filter: "clean_rows t = filter any_cell (map (map clean_cell) t)"
  by (simp add: clean_rows_def rows_loop_filter)

lemma process_table_tables: "tables (process_table res n t) = tables res @ emitted n t"
  by (simp add: process_table_def emitted_def Let_def)

lemma process_table_has_tables: "has_tables (process_table res n t) = has_tables res"
  by (simp add: process_table_def Let_def)

lemma process_table_page_count: "page_count (process_table res n t) = page_count res"
  by (simp add: process_table_def Let_def)

lemma tables_loop_tables: "tables (tables_loop res n ts) = tables res @ concat (map (emitted n) ts)"
  by (induction ts arbitrary: res) (simp_all add: process_table_tables)

lemma tables_loop_has_tables: "has_tables (tables_loop res n ts) = has_tables res"
  by (induction ts arbitrary: res) (simp_all add: process_table_has_tables)

lemma tables_loop_page_count: "page_count (tables_loop res n ts) = page_count res"
  by (induction ts arbitrary: res) (simp_all add: process_table_page_count)

lemma emitted_cases:
  "emitted n t = (case clean_rows t of [] \<Rightarrow> []
     | [r] \<Rightarrow> [\<lparr>page = n + 1, headers = r, rows = [r]\<rparr>]
     | r # rs \<Rightarrow> [\<lparr>page = n + 1, headers = r, rows = rs\<rparr>])"
  by (simp add: emitted_def process_table_def Let_def split: list.splits)

lemma pages_loop_ok:
  "\<exists>r. pages_loop res n (map Inr tss) = Inr r
     \<and> tables r = tables res @ concat (map (\<lambda>(i, ts). concat (map (emitted (n + int i)) ts)) (enumerate 0 tss))
     \<and> has_tables r = (has_tables res \<or> (\<exists>ts\<in>set tss. ts \<noteq> []))
     \<and> page_count r = page_count res"
proof (induction tss arbitrary: res n)
  case Nil
  then show ?case by simp
next
  case (Cons ts tss)
  let ?mid = "if ts \<noteq> [] then tables_loop (res\<lparr>has_tables := True\<rparr>) n ts else res"
  have mid_tables: "tables ?mid = tables res @ concat (map (emitted n) ts)"
    by (simp add: tables_loop_tables)
  have mid_has: "has_tables ?mid = (has_tables res \<or> ts \<noteq> [])"
    by (simp add: tables_loop_has_tables)
  have mid_count: "page_count ?mid = page_count res"
    by (simp add: tables_loop_page_count)
  from Cons.IH [of ?mid "n + 1"] obtain r where
    r: "pages_loop ?mid (n + 1) (map Inr tss) = Inr r"
      "tables r = tables ?mid @ concat (map (\<lambda>(i, ts). concat (map (emitted (n + 1 + int i)) ts)) (enumerate 0 tss))"
      "has_tables r = (has_tables ?mid \<or> (\<exists>ts\<in>set tss. ts \<noteq> []))"
      "page_count r = page_count ?mid"
    by blast
  have shift: "map (\<lambda>(i, ts). concat (map (emitted (n + int i)) ts)) (enumerate (Suc 0) tss)
      = map (\<lambda>(i, ts). concat (map (emitted (n + 1 + int i)) ts)) (enumerate 0 tss)"
    by (simp add: enumerate_Suc_eq split_def add.commute add.left_commute)
  have "pages_loop res n (map Inr (ts # tss)) = Inr r"
    using r(1) by simp
  moreover have "tables r = tables res @ concat (map (\<lambda>(i, ts). concat (map (emitted (n + int i)) ts)) (enumerate 0 (ts # tss)))"
    using r(2) mid_tables shift by simp
  moreover have "has_tables r = (has_tables res \<or> (\<exists>ts\<in>set (ts # tss). ts \<noteq> []))"
    using r(3) mid_has by auto
  moreover have "page_count r = page_count res"
    using r(4) mid_count by simp
  ultimately show ?case by blast
qed

lemma pages_loop_fail: "pages_loop res n (map Inr tss @ Inl e # rest) = Inl e"
  by (induction tss arbitrary: res n) simp_all

lemma pages_loop_Inr_all: "pages_loop res n ps = Inr r \<Longrightarrow> ps = map Inr (map projr ps)"
  by (induction res n ps rule: pages_loop.induct) simp_all

lemma extract_tables_ok:
  assumes "opn path = Inr (map Inr tss)"
  shows "\<exists>r. extract_tables opn path = Inr r
     \<and> tables r = concat (map (\<lambda>(i, ts). concat (map (emitted (int i)) ts)) (enumerate 0 tss))
     \<and> has_tables r = (\<exists>ts\<in>set tss. ts \<noteq> [])
     \<and> page_count r = int (length tss)"
  using pages_loop_ok [of "\<lparr>tables = [], has_tables = False, page_count = int (length tss)\<rparr>" 0 tss] assms
  by (simp add: extract_tables_def)

lemma extract_tables_Inr:
  assumes "extract_tables opn path = Inr r"
  shows "\<exists>tss. opn path = Inr (map Inr tss)
     \<and> tables r = concat (map (\<lambda>(i, ts). concat (map (emitted (int i)) ts)) (enumerate 0 tss))
     \<and> has_tables r = (\<exists>ts\<in>set tss. ts \<noteq> [])
     \<and> page_count r = int (length tss)"
proof -
  from assms obtain ps where ps: "opn path = Inr ps"
    and loop: "pages_loop \<lparr>tables = [], has_tables = False, page_count = int (length ps)\<rparr> 0 ps = Inr r"
    by (auto simp: extract_tables_def split: sum.splits)
  define tss where "tss = map projr ps"
  from pages_loop_Inr_all [OF loop] have opened: "opn path = Inr (map Inr tss)"
    using ps by (simp add: tss_def)
  from extract_tables_ok [of opn path tss] opened obtain r' where
    r': "extract_tables opn path = Inr r'"
      "tables r' = concat (map (\<lambda>(i, ts). concat (map (emitted (int i)) ts)) (enumerate 0 tss))"
      "has_tables r' = (\<exists>ts\<in>set tss. ts \<noteq> [])"
      "page_count r' = int (length tss)"
    by blast
  from r'(1) assms have "r' = r" by simp
  with r' opened show ?thesis by blast
qed

lemma in_concat_enumerate:
  "(x \<in> set (concat (map (\<lambda>(i, y). f i y) (enumerate 0 ys)))) = (\<exists>i<length ys. x \<in> set (f i (ys ! i)))"
proof
  assume "x \<in> set (concat (map (\<lambda>(i, y). f i y) (enumerate 0 ys)))"
  then obtain i y where "(i, y) \<in> set (enumerate 0 ys)" and "x \<in> set (f i y)"
    by auto
  then show "\<exists>i<length ys. x \<in> set (f i (ys ! i))"
    by (auto simp: in_set_enumerate_eq)
next
  assume "\<exists>i<length ys. x \<in> set (f i (ys ! i))"
  then obtain i where i: "i < length ys" "x \<in> set (f i (ys ! i))"
    by blast
  then have "(i, ys ! i) \<in> set (enumerate 0 ys)"
    by (simp add: in_set_enumerate_eq)
  with i(2) show "x \<in> set (concat (map (\<lambda>(i, y). f i y) (enumerate 0 ys)))"
    by force
qed

lemma in_tables_iff:
  assumes "extract_tables opn path = Inr r" and "opn path = Inr ps"
  shows "(rc \<in> set (tables r)) =
     (\<exists>i ts t. i < length ps \<and> ps ! i = Inr ts \<and> t \<in> set ts \<and> rc \<in> set (emitted (int i) t))"
proof -
  from extract_tables_Inr [OF assms(1)] assms(2) obtain tss where
    ps: "ps = map Inr tss" and
    tb: "tables r = concat (map (\<lambda>(i, ts). concat (map (emitted (int i)) ts)) (enumerate 0 tss))"
    by auto
  have "(rc \<in> set (tables r)) = (\<exists>i<length tss. rc \<in> set (concat (map (emitted (int i)) (tss ! i))))"
    unfolding tb by (rule in_concat_enumerate)
  also have "\<dots> = (\<exists>i<length tss. \<exists>t\<in>set (tss ! i). rc \<in> set (emitted (int i) t))"
    by simp
  also have "\<dots> = (\<exists>i ts t. i < length ps \<and> ps ! i = Inr ts \<and> t \<in> set ts \<and> rc \<in> set (emitted (int i) t))"
  proof
    assume "\<exists>i<length tss. \<exists>t\<in>set (tss ! i). rc \<in> set (emitted (int i) t)"
    then obtain i t where "i < length tss" "t \<in> set (tss ! i)" "rc \<in> set (emitted (int i) t)"
      by blast
    then have "i < length ps \<and> ps ! i = Inr (tss ! i) \<and> t \<in> set (tss ! i) \<and> rc \<in> set (emitted (int i) t)"
      by (simp add: ps)
    then show "\<exists>i ts t. i < length ps \<and> ps ! i = Inr ts \<and> t \<in> set ts \<and> rc \<in> set (emitted (int i) t)"
      by blast
  next
    assume "\<exists>i ts t. i < length ps \<and> ps ! i = Inr ts \<and> t \<in> set ts \<and> rc \<in> set (emitted (int i) t)"
    then obtain i ts t where "i < length ps" "ps ! i = Inr ts" "t \<in> set ts" "rc \<in> set (emitted (int i) t)"
      by blast
    then have "i < length tss \<and> t \<in> set (tss ! i) \<and> rc \<in> set (emitted (int i) t)"
      by (simp add: ps)
    then show "\<exists>i<length tss. \<exists>t\<in>set (tss ! i). rc \<in> set (emitted (int i) t)"
      by blast
  qed
  finally show ?thesis .
qed

section \<open>Cleaning cells and rows\<close>

lemma strip_Nil: "strip [] = []"
  by (simp add: strip_def lstrip_def rstrip_def)

lemma clean_cell_Some: "clean_cell (Some s) = strip s"
  by (simp add: clean_cell_def strip_Nil)

lemma clean_cell_None: "clean_cell None = []"
  by (simp add: clean_cell_def)

lemma clean_cell_case: "clean_cell = (\<lambda>c. case c of None \<Rightarrow> [] | Some s \<Rightarrow> strip s)"
  by (rule ext) (simp add: clean_cell_None clean_cell_Some split: option.splits)

lemma strip_decomp:
  "s = takeWhile is_space s @ strip s @ rev (takeWhile is_space (rev (lstrip s)))"
proof -
  have "lstrip s = strip s @ rev (takeWhile is_space (rev (lstrip s)))"
    unfolding strip_def rstrip_def
    by (metis rev_append rev_rev_ident takeWhile_dropWhile_id)
  moreover have "s = takeWhile is_space s @ lstrip s"
    by (simp add: lstrip_def)
  ultimately show ?thesis by simp
qed

lemma strip_first: "strip s \<noteq> [] \<Longrightarrow> \<not> is_space (hd (strip s))"
proof -
  assume ne: "strip s \<noteq> []"
  have "lstrip s = strip s @ rev (takeWhile is_space (rev (lstrip s)))"
    unfolding strip_def rstrip_def
    by (metis rev_append rev_rev_ident takeWhile_dropWhile_id)
  then have "hd (lstrip s) = hd (strip s)" using ne by (metis hd_append2)
  moreover have "lstrip s \<noteq> []" using ne by (auto simp: strip_def rstrip_def)
  ultimately show ?thesis by (metis lstrip_def hd_dropWhile)
qed

lemma strip_last: "strip s \<noteq> [] \<Longrightarrow> \<not> is_space (last (strip s))"
  unfolding strip_def rstrip_def
  by (metis hd_dropWhile last_rev rev_is_Nil_conv)

lemma any_cell_iff: "any_cell row = (\<exists>c\<in>set row. c \<noteq> [])"
  by (simp add: any_cell_def list_ex_iff)

lemma emitted_Nil: "clean_rows t = [] \<Longrightarrow> emitted n t = []"
  by (simp add: emitted_cases)

lemma emitted_single:
  "clean_rows t = [r] \<Longrightarrow> emitted n t = [\<lparr>page = n + 1, headers = r, rows = [r]\<rparr>]"
  by (simp add: emitted_cases)

lemma emitted_multi:
  "clean_rows t = r # rs \<Longrightarrow> rs \<noteq> [] \<Longrightarrow> emitted n t = [\<lparr>page = n + 1, headers = r, rows = rs\<rparr>]"
  by (cases rs) (simp_all add: emitted_cases)

lemma emitted_rows_any:
  assumes "rc \<in> set (emitted n t)"
  shows "any_cell (headers rc) \<and> (\<forall>row\<in>set (rows rc). any_cell row)
     \<and> (\<forall>row\<in>insert (headers rc) (set (rows rc)). \<exists>raw\<in>set t. row = map clean_cell raw)
     \<and> page rc = n + 1"
proof -
  have all: "\<forall>row\<in>set (clean_rows t). any_cell row \<and> (\<exists>raw\<in>set t. row = map clean_cell raw)"
    by (auto simp: clean_rows_filter)
  show ?thesis
  proof (cases "clean_rows t")
    case Nil
    with assms show ?thesis by (simp add: emitted_Nil)
  next
    case (Cons first rest)
    from all Cons have first: "any_cell first \<and> (\<exists>raw\<in>set t. first = map clean_cell raw)"
      and rest: "\<forall>row\<in>set rest. any_cell row \<and> (\<exists>raw\<in>set t. row = map clean_cell raw)"
      by simp_all
    show ?thesis
    proof (cases "rest = []")
      case True
      with Cons assms have "rc = \<lparr>page = n + 1, headers = first, rows = [first]\<rparr>"
        by (simp add: emitted_single)
      with first show ?thesis by simp
    next
      case False
      with Cons assms have "rc = \<lparr>page = n + 1, headers = first, rows = rest\<rparr>"
        by (simp add: emitted_multi)
      with first rest show ?thesis by simp
    qed
  qed
qed

text \<open>The definitions a concrete run unfolds.\<close>

lemmas run_defs = extract_tables_def readable_def unreadable_def process_table_def clean_rows_def
  clean_cell_def any_cell_def strip_def lstrip_def rstrip_def is_space_def lit_def Let_def

section \<open>Degenerate tables: one retained row\<close>

text \<open>
  C1. A detected table whose \<open>cleaned_rows\<close> holds exactly one row gets a record whose
  \<open>headers\<close> is that row and whose \<open>rows\<close> is \<open>cleaned_rows\<close> itself, the one-element
  list holding the same row; on page \<open>i\<close> (counted from 0) of a document that is read to
  its end, that record is among the tables of the result, with page \<open>i + 1\<close>.
\<close>

theorem single_row_table_record:
  assumes "extract_tables opn path = Inr r" and "opn path = Inr ps"
    and "i < length ps" and "ps ! i = Inr ts" and "t \<in> set ts"
    and "clean_rows t = [row]"
  shows "process_table res n t
           = res\<lparr>tables := tables res @ [\<lparr>page = n + 1, headers = row, rows = clean_rows t\<rparr>]\<rparr>
         \<and> \<lparr>page = int i + 1, headers = row, rows = [row]\<rparr> \<in> set (tables r)"
proof -
  have "process_table res n t
      = res\<lparr>tables := tables res @ [\<lparr>page = n + 1, headers = row, rows = clean_rows t\<rparr>]\<rparr>"
    using assms(6) by (simp add: process_table_def)
  moreover have "\<lparr>page = int i + 1, headers = row, rows = [row]\<rparr> \<in> set (emitted (int i) t)"
    using assms(6) by (simp add: emitted_single)
  then have "\<lparr>page = int i + 1, headers = row, rows = [row]\<rparr> \<in> set (tables r)"
    using assms(3-5) unfolding in_tables_iff [OF assms(1,2)] by blast
  ultimately show ?thesis by simp
qed

theorem single_row_table_record_witness:
  "extract_tables (readable [Inr [[[Some (lit ''X''), Some (lit '' Y '')], [None, Some (lit '' '')]]]]) []
     = Inr \<lparr>tables = [\<lparr>page = 1, headers = [lit ''X'', lit ''Y''], rows = [[lit ''X'', lit ''Y'']]\<rparr>],
            has_tables = True, page_count = 1\<rparr>
   \<and> clean_rows [[Some (lit ''X''), Some (lit '' Y '')], [None, Some (lit '' '')]] = [[lit ''X'', lit ''Y'']]
   \<and> \<lparr>page = 1, headers = [lit ''X'', lit ''Y''], rows = [[lit ''X'', lit ''Y'']]\<rparr>
       \<in> set (tables \<lparr>tables = [\<lparr>page = 1, headers = [lit ''X'', lit ''Y''], rows = [[lit ''X'', lit ''Y'']]\<rparr>],
            has_tables = True, page_count = 1\<rparr>)"
proof -
  let ?t = "[[Some (lit ''X''), Some (lit '' Y '')], [None, Some (lit '' '')]]"
  let ?ps = "[Inr [?t]] :: pdf"
  let ?r = "\<lparr>tables = [\<lparr>page = 1, headers = [lit ''X'', lit ''Y''], rows = [[lit ''X'', lit ''Y'']]\<rparr>],
            has_tables = True, page_count = 1\<rparr>"
  have h1: "extract_tables (readable ?ps) [] = Inr ?r"
    by (simp add: run_defs)
  have h2: "readable ?ps [] = Inr ?ps"
    by (simp add: readable_def)
  have h3: "clean_rows ?t = [[lit ''X'', lit ''Y'']]"
    by (simp add: run_defs)
  from single_row_table_record [OF h1 h2, of 0 "[?t]" ?t "[lit ''X'', lit ''Y'']"
      "\<lparr>tables = [], has_tables = False, page_count = 0\<rparr>" 0] h3
  have "\<lparr>page = 1, headers = [lit ''X'', lit ''Y''], rows = [[lit ''X'', lit ''Y'']]\<rparr> \<in> set (tables ?r)"
    by simp
  with h1 h3 show ?thesis by blast
qed

text \<open>
  C2, as the scenario states it: the lone row \<open>["X", "Y"]\<close> would be serialised with
  \<open>"rows": ["X", "Y"]\<close>, the flat list of cells.  The script stores \<open>cleaned_rows\<close>, a list
  of rows, so the record of that document differs from the one the scenario gives.
\<close>

theorem flat_rows_counterexample:
  "extract_tables (readable [Inr [[[Some (lit ''X''), Some (lit ''Y'')]]]]) []
     = Inr \<lparr>tables = [\<lparr>page = 1, headers = [lit ''X'', lit ''Y''], rows = [[lit ''X'', lit ''Y'']]\<rparr>],
            has_tables = True, page_count = 1\<rparr>
   \<and> table_json \<lparr>page = 1, headers = [lit ''X'', lit ''Y''], rows = [[lit ''X'', lit ''Y'']]\<rparr>
       \<noteq> JObject [(lit ''page'', JInt 1),
                  (lit ''headers'', JArray [JString (lit ''X''), JString (lit ''Y'')]),
                  (lit ''rows'', JArray [JString (lit ''X''), JString (lit ''Y'')])]"
  by (simp add: run_defs table_json_def)

text \<open>
  C2, amended: a detected table whose only retained row is \<open>["X", "Y"]\<close> gets a record with
  \<open>headers = ["X", "Y"]\<close> and \<open>rows = [["X", "Y"]]\<close>, a one-element list holding that row;
  it is serialised with \<open>"rows": [["X", "Y"]]\<close>.
\<close>

theorem single_row_xy_record:
  assumes "extract_tables opn path = Inr r" and "opn path = Inr ps"
    and "i < length ps" and "ps ! i = Inr ts" and "t \<in> set ts"
    and "clean_rows t = [[lit ''X'', lit ''Y'']]"
  shows "\<lparr>page = int i + 1, headers = [lit ''X'', lit ''Y''], rows = [[lit ''X'', lit ''Y'']]\<rparr>
           \<in> set (tables r)
         \<and> table_json \<lparr>page = int i + 1, headers = [lit ''X'', lit ''Y''], rows = [[lit ''X'', lit ''Y'']]\<rparr>
           = JObject [(lit ''page'', JInt (int i + 1)),
                      (lit ''headers'', JArray [JString (lit ''X''), JString (lit ''Y'')]),
                      (lit ''rows'', JArray [JArray [JString (lit ''X''), JString (lit ''Y'')]])]"
proof -
  have "\<lparr>page = int i + 1, headers = [lit ''X'', lit ''Y''], rows = [[lit ''X'', lit ''Y'']]\<rparr>
      \<in> set (emitted (int i) t)"
    using assms(6) by (simp add: emitted_single)
  then have "\<lparr>page = int i + 1, headers = [lit ''X'', lit ''Y''], rows = [[lit ''X'', lit ''Y'']]\<rparr>
      \<in> set (tables r)"
    using assms(3-5) unfolding in_tables_iff [OF assms(1,2)] by blast
  then show ?thesis by (simp add: table_json_def)
qed

theorem single_row_xy_record_witness:
  "extract_tables
     (readable [Inr [], Inr [[[None, None], [Some (lit ''X''), Some (lit ''Y'')], [Some (lit '' ''), None]]]]) []
     = Inr \<lparr>tables = [\<lparr>page = 2, headers = [lit ''X'', lit ''Y''], rows = [[lit ''X'', lit ''Y'']]\<rparr>],
            has_tables = True, page_count = 2\<rparr>
   \<and> clean_rows [[None, None], [Some (lit ''X''), Some (lit ''Y'')], [Some (lit '' ''), None]]
     = [[lit ''X'', lit ''Y'']]
   \<and> \<lparr>page = 2, headers = [lit ''X'', lit ''Y''], rows = [[lit ''X'', lit ''Y'']]\<rparr>
       \<in> set (tables \<lparr>tables = [\<lparr>page = 2, headers = [lit ''X'', lit ''Y''], rows = [[lit ''X'', lit ''Y'']]\<rparr>],
            has_tables = True, page_count = 2\<rparr>)"
proof -
  let ?t = "[[None, None], [Some (lit ''X''), Some (lit ''Y'')], [Some (lit '' ''), None]]"
  let ?ps = "[Inr [], Inr [?t]] :: pdf"
  let ?r = "\<lparr>tables = [\<lparr>page = 2, headers = [lit ''X'', lit ''Y''], rows = [[lit ''X'', lit ''Y'']]\<rparr>],
            has_tables = True, page_count = 2\<rparr>"
  have h1: "extract_tables (readable ?ps) [] = Inr ?r"
    by (simp add: run_defs)
  have h2: "readable ?ps [] = Inr ?ps"
    by (simp add: readable_def)
  have h3: "clean_rows ?t = [[lit ''X'', lit ''Y'']]"
    by (simp add: run_defs)
  from single_row_xy_record [OF h1 h2, of 1 "[?t]" ?t] h3
  have "\<lparr>page = 2, headers = [lit ''X'', lit ''Y''], rows = [[lit ''X'', lit ''Y'']]\<rparr> \<in> set (tables ?r)"
    by simp
  with h1 h3 show ?thesis by blast
qed

section \<open>Tables with several retained rows\<close>

text \<open>
  C3. The retained rows are the cleaned rows with a non-empty cell, in their original order.
  A detected table with more than one retained row gets a record whose page is the 1-based
  index of its page, whose headers is the first retained row and whose rows are the
  remaining ones.  In particular a two-page document whose only table, on page 2, cleans to
  \<open>[["Name", "Age"], ["Al", "30"]]\<close> yields exactly one record, with \<open>page = 2\<close>, those
  headers and \<open>rows = [["Al", "30"]]\<close>, and \<open>has_tables = true\<close>, \<open>page_count = 2\<close>.
\<close>

theorem multi_row_table_record:
  assumes "extract_tables opn path = Inr r" and "opn path = Inr ps"
    and "i < length ps" and "ps ! i = Inr ts" and "t \<in> set ts"
    and "clean_rows t = first # rest" and "rest \<noteq> []"
  shows "clean_rows t = filter any_cell (map (map clean_cell) t)
         \<and> process_table res n t
             = res\<lparr>tables := tables res @ [\<lparr>page = n + 1, headers = first, rows = rest\<rparr>]\<rparr>
         \<and> \<lparr>page = int i + 1, headers = first, rows = rest\<rparr> \<in> set (tables r)
         \<and> (\<forall>t2 p2. clean_rows t2 = [[lit ''Name'', lit ''Age''], [lit ''Al'', lit ''30'']] \<longrightarrow>
              extract_tables (readable [Inr [], Inr [t2]]) p2
                = Inr \<lparr>tables = [\<lparr>page = 2, headers = [lit ''Name'', lit ''Age''],
                                   rows = [[lit ''Al'', lit ''30'']]\<rparr>],
                       has_tables = True, page_count = 2\<rparr>)"
proof -
  have "process_table res n t
      = res\<lparr>tables := tables res @ [\<lparr>page = n + 1, headers = first, rows = rest\<rparr>]\<rparr>"
    using assms(6,7) by (cases rest) (simp_all add: process_table_def)
  moreover have "\<lparr>page = int i + 1, headers = first, rows = rest\<rparr> \<in> set (emitted (int i) t)"
    using assms(6,7) by (simp add: emitted_multi)
  then have "\<lparr>page = int i + 1, headers = first, rows = rest\<rparr> \<in> set (tables r)"
    using assms(3-5) unfolding in_tables_iff [OF assms(1,2)] by blast
  moreover have "extract_tables (readable [Inr [], Inr [t2]]) p2
                = Inr \<lparr>tables = [\<lparr>page = 2, headers = [lit ''Name'', lit ''Age''],
                                   rows = [[lit ''Al'', lit ''30'']]\<rparr>],
                       has_tables = True, page_count = 2\<rparr>"
    if "clean_rows t2 = [[lit ''Name'', lit ''Age''], [lit ''Al'', lit ''30'']]" for t2 p2
    using that by (simp add: extract_tables_def readable_def process_table_def)
  ultimately show ?thesis by (simp add: clean_rows_filter)
qed

theorem multi_row_table_record_witness:
  "extract_tables
     (readable [Inr [], Inr [[[Some (lit ''Name''), Some (lit ''Age'')], [None, Some (lit '' '')],
                              [Some (lit ''Al''), Some (lit '' 30'')]]]]) []
     = Inr \<lparr>tables = [\<lparr>page = 2, headers = [lit ''Name'', lit ''Age''], rows = [[lit ''Al'', lit ''30'']]\<rparr>],
            has_tables = True, page_count = 2\<rparr>
   \<and> clean_rows [[Some (lit ''Name''), Some (lit ''Age'')], [None, Some (lit '' '')],
                 [Some (lit ''Al''), Some (lit '' 30'')]]
     = [[lit ''Name'', lit ''Age''], [lit ''Al'', lit ''30'']]
   \<and> \<lparr>page = 2, headers = [lit ''Name'', lit ''Age''], rows = [[lit ''Al'', lit ''30'']]\<rparr>
       \<in> set (tables \<lparr>tables = [\<lparr>page = 2, headers = [lit ''Name'', lit ''Age''],
                                   rows = [[lit ''Al'', lit ''30'']]\<rparr>],
                       has_tables = True, page_count = 2\<rparr>)"
proof -
  let ?t = "[[Some (lit ''Name''), Some (lit ''Age'')], [None, Some (lit '' '')],
             [Some (lit ''Al''), Some (lit '' 30'')]]"
  let ?ps = "[Inr [], Inr [?t]] :: pdf"
  let ?r = "\<lparr>tables = [\<lparr>page = 2, headers = [lit ''Name'', lit ''Age''], rows = [[lit ''Al'', lit ''30'']]\<rparr>],
            has_tables = True, page_count = 2\<rparr>"
  have h1: "extract_tables (readable ?ps) [] = Inr ?r"
    by (simp add: run_defs)
  have h2: "readable ?ps [] = Inr ?ps"
    by (simp add: readable_def)
  have h3: "clean_rows ?t = [lit ''Name'', lit ''Age''] # [[lit ''Al'', lit ''30'']]"
    by (simp add: run_defs)
  from multi_row_table_record [OF h1 h2, of 1 "[?t]" ?t "[lit ''Name'', lit ''Age'']" "[[lit ''Al'', lit ''30'']]"] h3
  have "\<lparr>page = 2, headers = [lit ''Name'', lit ''Age''], rows = [[lit ''Al'', lit ''30'']]\<rparr> \<in> set (tables ?r)"
    by simp
  with h1 h3 show ?thesis by blast
qed

section \<open>Cells and rows of the output\<close>

lemma strip_trims:
  "\<exists>pre suf. s = pre @ strip s @ suf \<and> list_all is_space pre \<and> list_all is_space suf
     \<and> (strip s = [] \<or> (\<not> is_space (hd (strip s)) \<and> \<not> is_space (last (strip s))))"
proof -
  let ?pre = "takeWhile is_space s"
  let ?suf = "rev (takeWhile is_space (rev (lstrip s)))"
  have "s = ?pre @ strip s @ ?suf" by (rule strip_decomp)
  moreover have "list_all is_space ?pre"
    by (simp add: list_all_iff) (metis set_takeWhileD)
  moreover have "list_all is_space ?suf"
    by (simp add: list_all_iff) (metis set_takeWhileD)
  moreover have "strip s = [] \<or> (\<not> is_space (hd (strip s)) \<and> \<not> is_space (last (strip s)))"
    using strip_first strip_last by blast
  ultimately show ?thesis by blast
qed

text \<open>
  C4. Every row of the output, headers included, is a raw row of a detected table with each
  cell cleaned, so every cell is a string: an absent cell has become the empty string, a
  present cell its value stripped.  Stripping removes a run of white space at each end and
  leaves a string that neither starts nor ends with white space.
\<close>

theorem output_cells_are_cleaned_strings:
  assumes "extract_tables opn path = Inr r" and "t \<in> set (tables r)"
    and "row = headers t \<or> row \<in> set (rows t)"
  shows "(\<exists>ps i ts tbl raw. opn path = Inr ps \<and> i < length ps \<and> ps ! i = Inr ts \<and> tbl \<in> set ts
            \<and> raw \<in> set tbl \<and> row = map clean_cell raw)
         \<and> clean_cell = (\<lambda>c. case c of None \<Rightarrow> [] | Some s \<Rightarrow> strip s)
         \<and> (\<forall>s. \<exists>pre suf. s = pre @ strip s @ suf \<and> list_all is_space pre \<and> list_all is_space suf
               \<and> (strip s = [] \<or> (\<not> is_space (hd (strip s)) \<and> \<not> is_space (last (strip s)))))"
proof -
  from extract_tables_Inr [OF assms(1)] obtain tss where opened: "opn path = Inr (map Inr tss)"
    by blast
  from assms(2) in_tables_iff [OF assms(1) opened] obtain i ts tbl where
    i: "i < length (map Inr tss :: pdf)" "(map Inr tss :: pdf) ! i = Inr ts" "tbl \<in> set ts"
      "t \<in> set (emitted (int i) tbl)"
    by blast
  from emitted_rows_any [OF i(4)] assms(3) obtain raw where "raw \<in> set tbl" "row = map clean_cell raw"
    by auto
  with opened i(1-3) have "\<exists>ps i ts tbl raw. opn path = Inr ps \<and> i < length ps \<and> ps ! i = Inr ts
      \<and> tbl \<in> set ts \<and> raw \<in> set tbl \<and> row = map clean_cell raw"
    by blast
  then show ?thesis using clean_cell_case strip_trims by blast
qed

theorem output_cells_are_cleaned_strings_witness:
  "extract_tables (readable [Inr [[[Some (lit '' Name ''), None, Some []]]]]) []
     = Inr \<lparr>tables = [\<lparr>page = 1, headers = [lit ''Name'', [], []], rows = [[lit ''Name'', [], []]]\<rparr>],
            has_tables = True, page_count = 1\<rparr>
   \<and> (\<exists>ps i ts tbl raw. readable [Inr [[[Some (lit '' Name ''), None, Some []]]]] [] = Inr ps
         \<and> i < length ps \<and> ps ! i = Inr ts \<and> tbl \<in> set ts \<and> raw \<in> set tbl
         \<and> [lit ''Name'', [], []] = map clean_cell raw)"
proof -
  let ?ps = "[Inr [[[Some (lit '' Name ''), None, Some []]]]] :: pdf"
  let ?t = "\<lparr>page = 1, headers = [lit ''Name'', [], []], rows = [[lit ''Name'', [], []]]\<rparr>"
  let ?r = "\<lparr>tables = [?t], has_tables = True, page_count = 1\<rparr>"
  have h1: "extract_tables (readable ?ps) [] = Inr ?r"
    by (simp add: run_defs)
  have h2: "?t \<in> set (tables ?r)"
    by simp
  have h3: "[lit ''Name'', [], []] = headers ?t \<or> [lit ''Name'', [], []] \<in> set (rows ?t)"
    by simp
  from output_cells_are_cleaned_strings [OF h1 h2 h3] h1 show ?thesis
    by blast
qed

text \<open>
  C5. No row of a record, neither its headers nor an element of its rows, consists of empty
  cells only: each has a non-empty cell.  A table whose rows all clean to empty cells leaves
  the results as they were: no record is appended for it.
\<close>

theorem no_blank_row_in_output:
  assumes "extract_tables opn path = Inr r" and "t \<in> set (tables r)"
  shows "(\<exists>c\<in>set (headers t). c \<noteq> [])
         \<and> (\<forall>row\<in>set (rows t). \<exists>c\<in>set row. c \<noteq> [])
         \<and> (\<forall>res n tbl. (\<forall>raw\<in>set tbl. \<forall>c\<in>set raw. clean_cell c = []) \<longrightarrow>
               process_table res n tbl = res)"
proof -
  from extract_tables_Inr [OF assms(1)] obtain tss where opened: "opn path = Inr (map Inr tss)"
    by blast
  from assms(2) in_tables_iff [OF assms(1) opened] obtain i tbl where
    "t \<in> set (emitted (int i) tbl)"
    by blast
  from emitted_rows_any [OF this] have "any_cell (headers t)" and "\<forall>row\<in>set (rows t). any_cell row"
    by simp_all
  then have "\<exists>c\<in>set (headers t). c \<noteq> []" and "\<forall>row\<in>set (rows t). \<exists>c\<in>set row. c \<noteq> []"
    by (simp_all add: any_cell_iff)
  moreover have "process_table res n tbl = res"
    if blank: "\<forall>raw\<in>set tbl. \<forall>c\<in>set raw. clean_cell c = []" for res n and tbl :: raw_table
  proof -
    from blank have "filter any_cell (map (map clean_cell) tbl) = []"
      by (auto simp: filter_empty_conv any_cell_iff)
    then show ?thesis by (simp add: process_table_def clean_rows_filter)
  qed
  ultimately show ?thesis by blast
qed

theorem no_blank_row_in_output_witness:
  "extract_tables
     (readable [Inr [[[None, Some (lit '' '')]], [[Some (lit ''a''), None], [Some [], None]]]]) []
     = Inr \<lparr>tables = [\<lparr>page = 1, headers = [lit ''a'', []], rows = [[lit ''a'', []]]\<rparr>],
            has_tables = True, page_count = 1\<rparr>
   \<and> (\<exists>c\<in>set (headers \<lparr>page = 1, headers = [lit ''a'', []], rows = [[lit ''a'', []]]\<rparr>). c \<noteq> [])
   \<and> process_table \<lparr>tables = [], has_tables = True, page_count = 1\<rparr> 0 [[None, Some (lit '' '')]]
     = \<lparr>tables = [], has_tables = True, page_count = 1\<rparr>"
proof -
  let ?ps = "[Inr [[[None, Some (lit '' '')]], [[Some (lit ''a''), None], [Some [], None]]]] :: pdf"
  let ?t = "\<lparr>page = 1, headers = [lit ''a'', []], rows = [[lit ''a'', []]]\<rparr>"
  let ?r = "\<lparr>tables = [?t], has_tables = True, page_count = 1\<rparr>"
  have h1: "extract_tables (readable ?ps) [] = Inr ?r"
    by (simp add: run_defs)
  have h2: "?t \<in> set (tables ?r)"
    by simp
  have h3: "\<forall>raw\<in>set [[None, Some (lit '' '')]]. \<forall>c\<in>set raw. clean_cell c = []"
    by (simp add: run_defs)
  from no_blank_row_in_output [OF h1 h2] h3
  have "(\<exists>c\<in>set (headers ?t). c \<noteq> [])"
    and "process_table \<lparr>tables = [], has_tables = True, page_count = 1\<rparr> 0 [[None, Some (lit '' '')]]
     = \<lparr>tables = [], has_tables = True, page_count = 1\<rparr>"
    by blast+
  with h1 show ?thesis by blast
qed

section \<open>The flag and the page count\<close>

lemma pages_loop_no_tables: "\<forall>p\<in>set ps. p = Inr [] \<Longrightarrow> pages_loop res n ps = Inr res"
  by (induction ps arbitrary: n) simp_all

text \<open>
  C6. When detection returns no table on any page, the result has \<open>has_tables = false\<close>, an
  empty \<open>tables\<close> list, and \<open>page_count\<close> equal to the number of pages of the document.
\<close>

theorem no_tables_detected:
  assumes "opn path = Inr ps" and "\<forall>p\<in>set ps. p = Inr []"
  shows "extract_tables opn path
           = Inr \<lparr>tables = [], has_tables = False, page_count = int (length ps)\<rparr>"
  using assms by (simp add: extract_tables_def pages_loop_no_tables)

theorem no_tables_detected_witness:
  "readable [Inr [], Inr [], Inr []] (lit ''a.pdf'') = Inr [Inr [], Inr [], Inr []]
   \<and> extract_tables (readable [Inr [], Inr [], Inr []]) (lit ''a.pdf'')
       = Inr \<lparr>tables = [], has_tables = False, page_count = 3\<rparr>"
proof -
  let ?ps = "[Inr [], Inr [], Inr []] :: pdf"
  have h1: "readable ?ps (lit ''a.pdf'') = Inr ?ps"
    by (simp add: readable_def)
  have h2: "\<forall>p\<in>set ?ps. p = Inr []"
    by simp
  from no_tables_detected [of "readable ?ps" "lit ''a.pdf''" ?ps, OF h1 h2] h1 show ?thesis
    by simp
qed

text \<open>
  C7. There is a document whose result has \<open>has_tables = true\<close> and no table record: the flag
  is set as soon as detection returns a table on some page, before the rows are filtered,
  and a table whose rows are all empty or white space yields no record.
\<close>

theorem has_tables_without_records:
  "\<exists>doc r. doc = [Inr [[[None, Some (lit ''  '')], [Some []]]]]
     \<and> extract_tables (readable doc) path = Inr r \<and> has_tables r = True \<and> tables r = []"
  by (simp add: run_defs)

section \<open>The command line\<close>

lemmas dumps_defs = main_def results_json_def table_json_def encode_string_def escape_char_def
  u_escape_def hex_digit_def encode_int_def

text \<open>
  C8. With a path argument, when opening the document raises, or when detection raises on
  some page after any number of pages were scanned, the script prints exactly one line, the
  object with the single field \<open>error\<close> holding the message of the exception, and exits
  with status 1; nothing of the tables collected before the fault is printed.  (The faults
  are the exceptions that \<open>except Exception\<close> catches.)
\<close>

theorem fault_gives_error_payload:
  assumes "2 \<le> length argv"
    and "opn (argv ! 1) = Inl e \<or> opn (argv ! 1) = Inr (map Inr tss @ Inl e # rest)"
  shows "main opn argv
           = \<lparr>stdout = [json_dumps (JObject [(lit ''error'', JString (str e))])], exit_status = 1\<rparr>
         \<and> exit_status (main opn argv) \<noteq> 0
         \<and> json_dumps (JObject [(lit ''error'', JString (str e))])
             = lit ''{'' @ encode_string (lit ''error'') @ lit '': '' @ encode_string (str e) @ lit ''}''"
proof -
  from assms(2) have "extract_tables opn (argv ! 1) = Inl e"
    by (auto simp: extract_tables_def pages_loop_fail)
  with assms(1) have "main opn argv
      = \<lparr>stdout = [json_dumps (JObject [(lit ''error'', JString (str e))])], exit_status = 1\<rparr>"
    by (simp add: main_def)
  then show ?thesis by (simp add: lit_def)
qed

theorem fault_gives_error_payload_witness:
  \<open>main (readable [Inr [[[Some (lit ''X'')]]], Inl (Exception (lit ''bad page''))])
      [lit ''pdfTableExtractor.py'', lit ''a.pdf'']
     = \<lparr>stdout = [lit ''{"error": "bad page"}''], exit_status = 1\<rparr>\<close>
proof -
  let ?opn = "readable [Inr [[[Some (lit ''X'')]]], Inl (Exception (lit ''bad page''))]"
  let ?argv = "[lit ''pdfTableExtractor.py'', lit ''a.pdf'']"
  have h1: "2 \<le> length ?argv"
    by simp
  have h2: "?opn (?argv ! 1) = Inl (Exception (lit ''bad page''))
      \<or> ?opn (?argv ! 1) = Inr (map Inr [[[[Some (lit ''X'')]]]] @ Inl (Exception (lit ''bad page'')) # [])"
    by (simp add: readable_def)
  from fault_gives_error_payload [of ?argv ?opn "Exception (lit ''bad page'')" "[[[[Some (lit ''X'')]]]]" "[]",
      OF h1 h2]
  show ?thesis
    by (simp add: lit_def encode_string_def escape_char_def)
qed

text \<open>
  C9. Without a path argument the script prints exactly \<open>{"error": "PDF path required"}\<close>
  and exits with status 1, whatever the file system holds: no document is opened.
\<close>

theorem missing_path_argument:
  assumes "length argv < 2"
  shows \<open>main opn argv = \<lparr>stdout = [lit ''{"error": "PDF path required"}''], exit_status = 1\<rparr>\<close>
  using assms by (simp add: main_def lit_def encode_string_def escape_char_def)

theorem missing_path_argument_witness:
  \<open>main (readable [Inr [[[Some (lit ''X'')]]]]) [lit ''pdfTableExtractor.py'']
     = \<lparr>stdout = [lit ''{"error": "PDF path required"}''], exit_status = 1\<rparr>
   \<and> main (unreadable (Exception (lit ''no such file''))) []
     = \<lparr>stdout = [lit ''{"error": "PDF path required"}''], exit_status = 1\<rparr>\<close>
proof -
  have h1: "length [lit ''pdfTableExtractor.py''] < 2"
    by simp
  have h2: "length ([] :: pystr list) < 2"
    by simp
  from missing_path_argument [OF h1, of "readable [Inr [[[Some (lit ''X'')]]]]"]
    missing_path_argument [OF h2, of "unreadable (Exception (lit ''no such file''))"]
  show ?thesis
    by blast
qed

text \<open>
  A successful run, for reference: the result dictionary is printed on one line, with its
  keys in insertion order, and the script ends with status 0.
\<close>

lemma main_success_run:
  \<open>main (readable [Inr [[[Some (lit ''X''), Some (lit ''Y'')]]]]) [lit ''x.py'', lit ''a.pdf'']
     = \<lparr>stdout = [lit ''{"tables": [{"page": 1, "headers": ["X", "Y"], "rows": [["X", "Y"]]}], "has_tables": true, "page_count": 1}''],
        exit_status = 0\<rparr>\<close>
  by (simp add: run_defs dumps_defs digits.simps)

end
